theory Spec2Isabelle
  imports Main
begin

section \<open>The logger of \<^verbatim>\<open>Log.cpp\<close> as a state transformer\<close>

text \<open>
  \<^verbatim>\<open>Log.cpp\<close> implements a singleton logger. Each member function is embedded as a HOL
  function from the logger state to its return value and the state afterwards. The two
  sinks are part of that state: \<open>cout\<close> holds the lines sent to \<^verbatim>\<open>std::cout\<close>, oldest
  first, and the file stream \<open>m_stream\<close> carries the lines that reached the log file.
  Every \<^verbatim>\<open>message << std::endl\<close> is one element of such a list.
\<close>

subsection \<open>Severity levels\<close>

text \<open>
  Modelled from the spec: the enumeration \<^verbatim>\<open>Log::Type\<close> is declared in \<^verbatim>\<open>Log.h\<close>, which
  is not among the sources. The spec gives its members, most severe first: FATAL, ERROR,
  WARN, INFO, DEBUG, with the lower ordinal the more severe. The source agrees where it
  can be seen: \<^verbatim>\<open>type <= ERROR\<close> is commented "if it's an error (or worse)".
\<close>

datatype Type = FATAL | ERROR | WARN | INFO | DEBUG

text \<open>The enumerator's integer value, which is what \<^verbatim>\<open><=\<close> compares in C++.\<close>

fun Type_val :: "Type \<Rightarrow> nat" where
  "Type_val FATAL = 0"
| "Type_val ERROR = 1"
| "Type_val WARN = 2"
| "Type_val INFO = 3"
| "Type_val DEBUG = 4"

definition Type_le :: "Type \<Rightarrow> Type \<Rightarrow> bool" where
  "Type_le a b = (Type_val a \<le> Type_val b)"

subsection \<open>The output file stream\<close>

text \<open>
  \<^verbatim>\<open>std::ofstream\<close>, as far as the logger uses it. \<open>opened\<close> is the file the stream is
  attached to, with the mode it was opened in; \<open>failed\<close> stands for the error bits
  (\<^verbatim>\<open>failbit\<close>, \<^verbatim>\<open>badbit\<close>); \<open>written\<close> is what went through the stream into the file, one
  element per line, in order. In append mode these lines follow whatever the file held
  before.

  Whether the file takes a line is not decided by the program either: the disk may be
  full, the device may refuse. \<open>accepts\<close> holds the answers of the file the stream is
  attached to: \<open>accepts f k\<close> tells whether the write is taken that is attempted when
  \<open>k\<close> lines have gone through the stream. A refused write leaves the stream failed, and
  the logger never clears the error bits of an attached stream, so no answer is asked
  for after a refusal.
\<close>

datatype openmode = ios_app | ios_out

record ofstream =
  opened :: "(string \<times> openmode list) option"
  failed :: bool
  written :: "string list"
  accepts :: "nat \<Rightarrow> bool"

text \<open>The default constructor: attached to nothing, so there is no file to take anything.\<close>

definition ofstream_ctor :: ofstream where
  "ofstream_ctor = \<lparr>opened = None, failed = False, written = [], accepts = (\<lambda>k. False)\<rparr>"

text \<open>
  \<^verbatim>\<open>open\<close>: the source does not check the result. Whether the operating system grants
  the open is not decided by the program, so it is the parameter \<open>granted\<close>; \<open>answers\<close> is
  how the file that is opened will answer the writes. An open on a stream that is
  already attached fails. Success clears the error bits, failure sets \<^verbatim>\<open>failbit\<close>.
\<close>

definition ofstream_open ::
  "bool \<Rightarrow> (nat \<Rightarrow> bool) \<Rightarrow> string \<Rightarrow> openmode list \<Rightarrow> ofstream \<Rightarrow> ofstream" where
  "ofstream_open granted answers name mode f =
     (if granted \<and> opened f = None
      then f\<lparr>opened := Some (name, mode), failed := False, accepts := answers\<rparr>
      else f\<lparr>failed := True\<rparr>)"

text \<open>
  \<^verbatim>\<open>stream << message << std::endl\<close>: the line reaches the file when the stream is
  attached and in a good state and the file takes the write; otherwise nothing is
  written and the stream is (or stays) failed.
\<close>

definition ofstream_line :: "string \<Rightarrow> ofstream \<Rightarrow> ofstream" where
  "ofstream_line message f =
     (if opened f \<noteq> None \<and> \<not> failed f \<and> accepts f (length (written f))
      then f\<lparr>written := written f @ [message]\<rparr>
      else f\<lparr>failed := True\<rparr>)"

subsection \<open>The logger state\<close>

text \<open>
  The data members of \<^verbatim>\<open>Log\<close>, and the console. \<open>m_stack\<close> is a \<^verbatim>\<open>std::vector\<close>:
  \<^verbatim>\<open>push_back\<close> appends at the end of the list and \<^verbatim>\<open>back()\<close> is its last element.
\<close>

record Log =
  m_threshold :: Type
  m_fileName :: string
  m_stack :: "string list"
  m_stream :: ofstream
  m_initialised :: bool
  cout :: "string list"

text \<open>
  The constructor (lines 8-13). Its initialiser list does not mention \<open>m_initialised\<close>.
  The only object is the function-local static of \<^verbatim>\<open>Log::instance\<close>, and storage of
  static duration is zero-initialised before the constructor runs, so the flag starts
  as false; this is also the spec's initial state, Uninitialized.
\<close>

definition Log_ctor :: Log where
  "Log_ctor = \<lparr>m_threshold = INFO, m_fileName = [], m_stack = [],
                m_stream = ofstream_ctor, m_initialised = False, cout = []\<rparr>"

subsection \<open>Writing\<close>

text \<open>
  \<^verbatim>\<open>Log::write\<close> (lines 73-76), the \<^verbatim>\<open>std::string\<close> overload: the message goes to
  both sinks, unfiltered.
\<close>

definition write_str :: "string \<Rightarrow> Log \<Rightarrow> Log" where
  "write_str message s =
     s\<lparr>cout := cout s @ [message], m_stream := ofstream_line message (m_stream s)\<rparr>"

text \<open>
  The loop of lines 104-106 over the reverse iterator: one \<open>write_str\<close> per element, in the
  order the iterator visits them. \<open>log\<close> passes the reversed vector.
\<close>

fun write_each :: "string list \<Rightarrow> Log \<Rightarrow> Log" where
  "write_each [] s = s"
| "write_each (x # xs) s = write_each xs (write_str x s)"

text \<open>\<^verbatim>\<open>Log::log\<close> (lines 94-112).\<close>

definition log :: "Type \<Rightarrow> string \<Rightarrow> Log \<Rightarrow> bool \<times> Log" where
  "log type message s =
     (if Type_le type (m_threshold s) then
        let prefix = ''[ TIME ] '';
            s1 = write_str (prefix @ message) s;
            s2 = (if Type_le type ERROR then
                    let s3 = write_str ''====== Stack Trace ======'' s1;
                        s4 = write_each (rev (m_stack s3)) s3
                    in write_str ''========================='' s4
                  else s1)
        in (True, s2)
      else (False, s))"

text \<open>
  The wrappers (lines 120-212). The \<^verbatim>\<open>const char*\<close> overloads only convert their
  argument to \<^verbatim>\<open>std::string\<close> and call these.
\<close>

definition fatal :: "string \<Rightarrow> Log \<Rightarrow> bool \<times> Log" where
  "fatal message s = log FATAL message s"

definition error :: "string \<Rightarrow> Log \<Rightarrow> bool \<times> Log" where
  "error message s = log ERROR message s"

definition warn :: "string \<Rightarrow> Log \<Rightarrow> bool \<times> Log" where
  "warn message s = log WARN message s"

definition info :: "string \<Rightarrow> Log \<Rightarrow> bool \<times> Log" where
  "info message s = log INFO message s"

definition debug :: "string \<Rightarrow> Log \<Rightarrow> bool \<times> Log" where
  "debug message s = log DEBUG message s"

subsection \<open>Initialisation\<close>

text \<open>
  \<^verbatim>\<open>Log::initialise\<close> (lines 47-56). \<open>granted\<close> is the operating system's answer to the
  open and \<open>answers\<close> the answers of the opened file to the writes, see \<open>ofstream_open\<close>.
\<close>

definition initialise :: "bool \<Rightarrow> (nat \<Rightarrow> bool) \<Rightarrow> string \<Rightarrow> Log \<Rightarrow> bool \<times> Log" where
  "initialise granted answers fileName s =
     (if \<not> m_initialised s then
        let s1 = s\<lparr>m_fileName := fileName\<rparr>;
            s2 = s1\<lparr>m_stream :=
                   ofstream_open granted answers fileName [ios_app, ios_out] (m_stream s1)\<rparr>;
            s3 = s2\<lparr>m_initialised := True\<rparr>;
            s4 = snd (info ''Log initialised'' s3)
        in (True, s4)
      else (False, s))"

subsection \<open>The call stack\<close>

text \<open>
  \<^verbatim>\<open>back()\<close> on an empty vector is undefined behaviour; the embedding makes it a result
  of its own.
\<close>

datatype fault = UndefinedBehaviour

text \<open>\<^verbatim>\<open>Log::peek\<close> (lines 219-221): no guard; the state is not touched.\<close>

definition peek :: "Log \<Rightarrow> fault + string" where
  "peek s = (if m_stack s = [] then Inl UndefinedBehaviour else Inr (last (m_stack s)))"

text \<open>\<^verbatim>\<open>Log::push\<close> (lines 229-236).\<close>

definition push :: "string \<Rightarrow> Log \<Rightarrow> bool \<times> Log" where
  "push input s =
     (if input \<noteq> [] then
        let s1 = snd (info (''BEGIN - '' @ input) s);
            s2 = s1\<lparr>m_stack := m_stack s1 @ [input]\<rparr>
        in (True, s2)
      else (False, s))"

text \<open>\<^verbatim>\<open>Log::pop\<close> (lines 253-261). It calls \<open>peek\<close>, so a fault of \<open>peek\<close> is passed on.\<close>

definition pop :: "Log \<Rightarrow> fault + (string \<times> Log)" where
  "pop s =
     (if m_stack s \<noteq> [] then
        (case peek s of
           Inl e \<Rightarrow> Inl e
         | Inr temp \<Rightarrow>
             let s1 = s\<lparr>m_stack := butlast (m_stack s)\<rparr>;
                 s2 = snd (info (''END - '' @ temp) s1)
             in Inr (temp, s2))
      else Inr ([], s))"

subsection \<open>Sequences of calls\<close>

text \<open>
  The public member functions as events, for statements about what a client can bring
  about. \<open>Initialise\<close> carries the answers of the operating system and of the file. A call that
  runs into undefined behaviour has no state afterwards.
\<close>

datatype call =
  Initialise bool "nat \<Rightarrow> bool" string
| Write string
| LogCall Type string
| Fatal string
| Error string
| Warn string
| Info string
| Debug string
| Peek
| Push string
| Pop

fun exec :: "call \<Rightarrow> Log \<Rightarrow> fault + Log" where
  "exec (Initialise granted answers fileName) s = Inr (snd (initialise granted answers fileName s))"
| "exec (Write message) s = Inr (write_str message s)"
| "exec (LogCall type message) s = Inr (snd (log type message s))"
| "exec (Fatal message) s = Inr (snd (fatal message s))"
| "exec (Error message) s = Inr (snd (error message s))"
| "exec (Warn message) s = Inr (snd (warn message s))"
| "exec (Info message) s = Inr (snd (info message s))"
| "exec (Debug message) s = Inr (snd (debug message s))"
| "exec Peek s = (case peek s of Inl e \<Rightarrow> Inl e | Inr label \<Rightarrow> Inr s)"
| "exec (Push input) s = Inr (snd (push input s))"
| "exec Pop s = (case pop s of Inl e \<Rightarrow> Inl e | Inr (label, s') \<Rightarrow> Inr s')"

text \<open>The states of the singleton: the constructed logger, and what calls make of it.\<close>

inductive reachable :: "Log \<Rightarrow> bool" where
  constructed: "reachable Log_ctor"
| called: "reachable s \<Longrightarrow> exec c s = Inr s' \<Longrightarrow> reachable s'"

code_pred reachable .

text \<open>Pushing a list of labels, first element first.\<close>

fun push_all :: "string list \<Rightarrow> Log \<Rightarrow> Log" where
  "push_all [] s = s"
| "push_all (l # ls) s = push_all ls (snd (push l s))"

text \<open>Every entry of the call stack is a non-empty string.\<close>

definition stack_entries_nonempty :: "Log \<Rightarrow> bool" where
  "stack_entries_nonempty s = ([] \<notin> set (m_stack s))"

section \<open>Auxiliary facts\<close>

subsection \<open>The constructed logger\<close>

lemma Log_ctor_fields:
  "m_threshold Log_ctor = INFO"
  "m_fileName Log_ctor = []"
  "m_stack Log_ctor = []"
  "m_stream Log_ctor = ofstream_ctor"
  "\<not> m_initialised Log_ctor"
  "cout Log_ctor = []"
  by (simp_all add: Log_ctor_def)

subsection \<open>The file stream\<close>

lemma ofstream_line_opened: "opened (ofstream_line x f) = opened f"
  by (simp add: ofstream_line_def)

lemma ofstream_line_accepts: "accepts (ofstream_line x f) = accepts f"
  by (simp add: ofstream_line_def)

lemma ofstream_line_detached:
  "opened f = None \<Longrightarrow> written (ofstream_line x f) = written f"
  by (simp add: ofstream_line_def)

lemma ofstream_line_good:
  "opened f \<noteq> None \<Longrightarrow> \<not> failed f \<Longrightarrow> accepts f (length (written f)) \<Longrightarrow>
     ofstream_line x f = f\<lparr>written := written f @ [x]\<rparr>"
  by (simp add: ofstream_line_def)

lemma ofstream_line_failed: "failed f \<Longrightarrow> ofstream_line x f = f"
  by (simp add: ofstream_line_def)

text \<open>A write either appends its line or appends nothing and leaves the stream failed.\<close>

lemma ofstream_line_cases:
  "written (ofstream_line x f) = written f @ [x]
   \<or> written (ofstream_line x f) = written f \<and> failed (ofstream_line x f)"
  by (simp add: ofstream_line_def)

subsection \<open>Writing leaves the members alone\<close>

lemma write_str_fields:
  "m_stack (write_str x s) = m_stack s"
  "m_threshold (write_str x s) = m_threshold s"
  "m_fileName (write_str x s) = m_fileName s"
  "m_initialised (write_str x s) = m_initialised s"
  "cout (write_str x s) = cout s @ [x]"
  "opened (m_stream (write_str x s)) = opened (m_stream s)"
  "accepts (m_stream (write_str x s)) = accepts (m_stream s)"
  by (simp_all add: write_str_def ofstream_line_opened ofstream_line_accepts)

lemma write_str_detached:
  "opened (m_stream s) = None \<Longrightarrow> written (m_stream (write_str x s)) = written (m_stream s)"
  by (simp add: write_str_def ofstream_line_detached)

lemma write_str_good:
  assumes "opened (m_stream s) \<noteq> None" and "\<not> failed (m_stream s)"
    and "accepts (m_stream s) (length (written (m_stream s)))"
  shows "written (m_stream (write_str x s)) = written (m_stream s) @ [x]"
    and "\<not> failed (m_stream (write_str x s))"
  using assms by (simp_all add: write_str_def ofstream_line_good)

lemma write_each_append: "write_each (xs @ ys) s = write_each ys (write_each xs s)"
  by (induction xs arbitrary: s) simp_all

lemma write_each_fields:
  "m_stack (write_each xs s) = m_stack s"
  "m_threshold (write_each xs s) = m_threshold s"
  "m_fileName (write_each xs s) = m_fileName s"
  "m_initialised (write_each xs s) = m_initialised s"
  "cout (write_each xs s) = cout s @ xs"
  "opened (m_stream (write_each xs s)) = opened (m_stream s)"
  "accepts (m_stream (write_each xs s)) = accepts (m_stream s)"
  by (induction xs arbitrary: s; simp add: write_str_fields)+

lemma write_each_detached:
  "opened (m_stream s) = None \<Longrightarrow> written (m_stream (write_each xs s)) = written (m_stream s)"
  by (induction xs arbitrary: s) (simp_all add: write_str_detached write_str_fields)

text \<open>When the file takes every one of the writes, every line reaches it.\<close>

lemma write_each_good:
  "opened (m_stream s) \<noteq> None \<Longrightarrow> \<not> failed (m_stream s) \<Longrightarrow>
   (\<forall>k < length xs. accepts (m_stream s) (length (written (m_stream s)) + k)) \<Longrightarrow>
     written (m_stream (write_each xs s)) = written (m_stream s) @ xs
     \<and> \<not> failed (m_stream (write_each xs s))"
proof (induction xs arbitrary: s)
  case Nil
  then show ?case by simp
next
  case (Cons x xs)
  from Cons.prems(3) have first: "accepts (m_stream s) (length (written (m_stream s)))"
    by force
  have w: "written (m_stream (write_str x s)) = written (m_stream s) @ [x]"
    and g: "\<not> failed (m_stream (write_str x s))"
    using Cons.prems(1,2) first by (rule write_str_good)+
  have o: "opened (m_stream (write_str x s)) \<noteq> None"
    using Cons.prems(1) by (simp add: write_str_fields)
  have "accepts (m_stream (write_str x s)) (length (written (m_stream (write_str x s))) + k)"
    if "k < length xs" for k
  proof -
    from that have "Suc k < length (x # xs)" by simp
    with Cons.prems(3) have "accepts (m_stream s) (length (written (m_stream s)) + Suc k)"
      by blast
    then show ?thesis by (simp add: w write_str_fields)
  qed
  then have "written (m_stream (write_each xs (write_str x s)))
        = written (m_stream (write_str x s)) @ xs
      \<and> \<not> failed (m_stream (write_each xs (write_str x s)))"
    using Cons.IH [OF o g] by blast
  then show ?case
    by (simp add: w)
qed

text \<open>Whatever the file does, what reaches it is an initial part of the lines, in order.\<close>

lemma write_each_failed:
  "failed (m_stream s) \<Longrightarrow> m_stream (write_each xs s) = m_stream s"
  by (induction xs arbitrary: s) (simp_all add: write_str_def ofstream_line_failed)

lemma write_each_prefix:
  "\<exists>j. written (m_stream (write_each xs s)) = written (m_stream s) @ take j xs"
proof (induction xs arbitrary: s)
  case Nil
  show ?case by simp
next
  case (Cons x xs)
  have m: "m_stream (write_str x s) = ofstream_line x (m_stream s)"
    by (simp add: write_str_def)
  from ofstream_line_cases [of x "m_stream s"] show ?case
  proof
    assume a: "written (ofstream_line x (m_stream s)) = written (m_stream s) @ [x]"
    from Cons.IH [of "write_str x s"] obtain j where
      "written (m_stream (write_each xs (write_str x s)))
         = written (m_stream (write_str x s)) @ take j xs" ..
    then have "written (m_stream (write_each (x # xs) s))
        = written (m_stream s) @ take (Suc j) (x # xs)"
      by (simp add: m a)
    then show ?thesis ..
  next
    assume "written (ofstream_line x (m_stream s)) = written (m_stream s)
        \<and> failed (ofstream_line x (m_stream s))"
    then have "written (m_stream (write_each (x # xs) s))
        = written (m_stream s) @ take 0 (x # xs)"
      by (simp add: write_each_failed m)
    then show ?thesis ..
  qed
qed

subsection \<open>What \<open>log\<close> prints\<close>

text \<open>The lines one call of \<open>log\<close> sends to a sink when the level passes the threshold.\<close>

lemma log_rejected: "\<not> Type_le L (m_threshold s) \<Longrightarrow> log L m s = (False, s)"
  by (simp add: log_def)

lemma log_fields:
  "m_stack (snd (log L m s)) = m_stack s"
  "m_threshold (snd (log L m s)) = m_threshold s"
  "m_fileName (snd (log L m s)) = m_fileName s"
  "m_initialised (snd (log L m s)) = m_initialised s"
  "opened (m_stream (snd (log L m s))) = opened (m_stream s)"
  by (simp_all add: log_def Let_def write_str_fields write_each_fields)

lemma log_cout_plain:
  "Type_le L (m_threshold s) \<Longrightarrow> \<not> Type_le L ERROR \<Longrightarrow>
     cout (snd (log L m s)) = cout s @ [''[ TIME ] '' @ m]"
  by (simp add: log_def Let_def write_str_fields)

lemma log_cout_dump:
  "Type_le L (m_threshold s) \<Longrightarrow> Type_le L ERROR \<Longrightarrow>
     cout (snd (log L m s)) =
       cout s @ [''[ TIME ] '' @ m, ''====== Stack Trace ======''] @ rev (m_stack s)
         @ [''=========================''] "
  by (simp add: log_def Let_def write_str_fields write_each_fields)

lemma log_detached:
  "opened (m_stream s) = None \<Longrightarrow> written (m_stream (snd (log L m s))) = written (m_stream s)"
  by (simp add: log_def Let_def write_str_fields write_each_fields
      write_str_detached write_each_detached)

lemma info_cout:
  "Type_le INFO (m_threshold s) \<Longrightarrow> cout (snd (info m s)) = cout s @ [''[ TIME ] '' @ m]"
  by (simp add: info_def log_cout_plain Type_le_def)

text \<open>A call of \<open>log\<close> that passes the threshold is a run of writes.\<close>

lemma log_plain_writes:
  "Type_le L (m_threshold s) \<Longrightarrow> \<not> Type_le L ERROR \<Longrightarrow>
     snd (log L m s) = write_each [''[ TIME ] '' @ m] s"
  by (simp add: log_def Let_def)

lemma log_dump_writes:
  "Type_le L (m_threshold s) \<Longrightarrow> Type_le L ERROR \<Longrightarrow>
     snd (log L m s) =
       write_each ([''[ TIME ] '' @ m, ''====== Stack Trace ======''] @ rev (m_stack s)
         @ [''=========================''] ) s"
  by (simp add: log_def Let_def write_each_append write_str_fields)

lemma log_good_plain:
  assumes "opened (m_stream s) \<noteq> None" and "\<not> failed (m_stream s)"
    and "accepts (m_stream s) (length (written (m_stream s)))"
    and "Type_le L (m_threshold s)" and "\<not> Type_le L ERROR"
  shows "written (m_stream (snd (log L m s))) = written (m_stream s) @ [''[ TIME ] '' @ m]"
  using assms by (simp add: log_def Let_def write_str_good)

lemma log_good_dump:
  assumes op: "opened (m_stream s) \<noteq> None" and ok: "\<not> failed (m_stream s)"
    and acc: "\<forall>k < length (m_stack s) + 3.
                accepts (m_stream s) (length (written (m_stream s)) + k)"
    and "Type_le L (m_threshold s)" and "Type_le L ERROR"
  shows "written (m_stream (snd (log L m s))) =
           written (m_stream s) @ [''[ TIME ] '' @ m, ''====== Stack Trace ======'']
             @ rev (m_stack s) @ [''=========================''] "
proof -
  let ?lines = "[''[ TIME ] '' @ m, ''====== Stack Trace ======''] @ rev (m_stack s)
      @ [''=========================''] "
  have "length ?lines = length (m_stack s) + 3"
    by simp
  with acc have "\<forall>k < length ?lines. accepts (m_stream s) (length (written (m_stream s)) + k)"
    by metis
  from write_each_good [OF op ok this] show ?thesis
    using assms(4,5) by (simp only: log_dump_writes)
qed

lemma log_prefix_dump:
  assumes "Type_le L (m_threshold s)" and "Type_le L ERROR"
  shows "\<exists>j. written (m_stream (snd (log L m s))) =
           written (m_stream s) @ take j ([''[ TIME ] '' @ m, ''====== Stack Trace ======'']
             @ rev (m_stack s) @ [''=========================''] )"
  using assms write_each_prefix by (simp only: log_dump_writes)

subsection \<open>Push and pop\<close>

lemma push_rejected: "push [] s = (False, s)"
  by (simp add: push_def)

lemma push_accepted:
  "input \<noteq> [] \<Longrightarrow>
     push input s = (True, (snd (info (''BEGIN - '' @ input) s))\<lparr>m_stack := m_stack s @ [input]\<rparr>)"
  by (simp add: push_def Let_def info_def log_fields)

lemma push_stack: "input \<noteq> [] \<Longrightarrow> m_stack (snd (push input s)) = m_stack s @ [input]"
  by (simp add: push_accepted)

lemma push_fields:
  "m_threshold (snd (push input s)) = m_threshold s"
  "m_fileName (snd (push input s)) = m_fileName s"
  "m_initialised (snd (push input s)) = m_initialised s"
  "opened (m_stream (snd (push input s))) = opened (m_stream s)"
  by (simp_all add: push_def Let_def info_def log_fields)

lemma push_cout:
  "input \<noteq> [] \<Longrightarrow> Type_le INFO (m_threshold s) \<Longrightarrow>
     cout (snd (push input s)) = cout s @ [''[ TIME ] BEGIN - '' @ input]"
  by (simp add: push_accepted info_cout)

lemma push_all_stack: "[] \<notin> set ls \<Longrightarrow> m_stack (push_all ls s) = m_stack s @ ls"
  by (induction ls arbitrary: s) (auto simp: push_stack)

lemma pop_empty: "m_stack s = [] \<Longrightarrow> pop s = Inr ([], s)"
  by (simp add: pop_def)

lemma pop_nonempty:
  "m_stack s \<noteq> [] \<Longrightarrow>
     pop s = Inr (last (m_stack s),
                  snd (info (''END - '' @ last (m_stack s)) (s\<lparr>m_stack := butlast (m_stack s)\<rparr>)))"
  by (simp add: pop_def peek_def Let_def)

lemma pop_fields:
  assumes "pop s = Inr (r, s')"
  shows "m_threshold s' = m_threshold s"
    and "m_fileName s' = m_fileName s"
    and "m_initialised s' = m_initialised s"
    and "opened (m_stream s') = opened (m_stream s)"
    and "m_stack s' = butlast (m_stack s)"
  using assms
  by (cases "m_stack s = []"; auto simp: pop_empty pop_nonempty info_def log_fields)+

subsection \<open>Initialisation\<close>

lemma initialise_again: "m_initialised s \<Longrightarrow> initialise granted answers fileName s = (False, s)"
  by (simp add: initialise_def)

lemma initialise_first:
  assumes "\<not> m_initialised s"
  shows "fst (initialise granted answers fileName s)"
    and "m_fileName (snd (initialise granted answers fileName s)) = fileName"
    and "m_initialised (snd (initialise granted answers fileName s))"
    and "m_threshold (snd (initialise granted answers fileName s)) = m_threshold s"
    and "m_stack (snd (initialise granted answers fileName s)) = m_stack s"
    and "opened (m_stream (snd (initialise granted answers fileName s)))
           = opened (ofstream_open granted answers fileName [ios_app, ios_out] (m_stream s))"
  using assms by (simp_all add: initialise_def Let_def info_def log_fields)

lemma initialise_sets_flag: "m_initialised (snd (initialise granted answers fileName s))"
  by (cases "m_initialised s") (simp_all add: initialise_again initialise_first)

subsection \<open>What every call preserves\<close>

lemma exec_threshold: "exec c s = Inr s' \<Longrightarrow> m_threshold s' = m_threshold s"
proof (cases c)
  case (Initialise granted answers fileName)
  assume "exec c s = Inr s'"
  with Initialise show ?thesis
    by (cases "m_initialised s") (auto simp: initialise_again initialise_first)
next
  case Pop
  assume "exec c s = Inr s'"
  with Pop show ?thesis
    by (auto split: sum.splits dest: pop_fields(1))
qed (auto simp: fatal_def error_def warn_def info_def debug_def log_fields
      write_str_fields push_fields split: sum.splits)

lemma exec_stack_entries:
  "exec c s = Inr s' \<Longrightarrow> stack_entries_nonempty s \<Longrightarrow> stack_entries_nonempty s'"
proof (cases c)
  case (Initialise granted answers fileName)
  assume "exec c s = Inr s'" and "stack_entries_nonempty s"
  with Initialise show ?thesis
    by (cases "m_initialised s")
      (auto simp: stack_entries_nonempty_def initialise_again initialise_first)
next
  case (Push input)
  assume "exec c s = Inr s'" and "stack_entries_nonempty s"
  with Push show ?thesis
    by (cases "input = []") (auto simp: stack_entries_nonempty_def push_rejected push_stack)
next
  case Pop
  assume "exec c s = Inr s'" and "stack_entries_nonempty s"
  with Pop show ?thesis
    by (auto simp: stack_entries_nonempty_def split: sum.splits
        dest!: pop_fields(5) dest: in_set_butlastD)
qed (auto simp: stack_entries_nonempty_def fatal_def error_def warn_def info_def debug_def
      log_fields write_str_fields split: sum.splits)

lemma exec_keeps_stack:
  assumes "exec c s = Inr s'" and "c \<noteq> Pop" and "\<forall>input. c \<noteq> Push input"
  shows "m_stack s' = m_stack s"
proof (cases c)
  case (Initialise granted answers fileName)
  with assms(1) show ?thesis
    by (cases "m_initialised s") (auto simp: initialise_again initialise_first)
qed (use assms in \<open>auto simp: fatal_def error_def warn_def info_def debug_def log_fields
      write_str_fields split: sum.splits\<close>)

lemma exec_stays_initialised:
  assumes "exec c s = Inr s'" and "m_initialised s"
  shows "m_initialised s' \<and> m_fileName s' = m_fileName s
         \<and> opened (m_stream s') = opened (m_stream s)"
proof (cases c)
  case Pop
  with assms show ?thesis
    by (auto split: sum.splits dest: pop_fields)
qed (use assms in \<open>auto simp: initialise_again fatal_def error_def warn_def info_def
      debug_def log_fields write_str_fields push_fields split: sum.splits\<close>)

text \<open>Before \<open>initialise\<close> has run the stream is attached to no file and nothing went through it.\<close>

lemma exec_detached:
  assumes "exec c s = Inr s'" and "\<not> m_initialised s'"
    and "\<not> m_initialised s \<longrightarrow> opened (m_stream s) = None \<and> written (m_stream s) = []"
  shows "opened (m_stream s') = None \<and> written (m_stream s') = []"
proof -
  have ni: "\<not> m_initialised s"
    using assms(1,2) exec_stays_initialised by blast
  with assms(3) have d: "opened (m_stream s) = None" and w: "written (m_stream s) = []"
    by simp_all
  show ?thesis
  proof (cases c)
    case (Initialise granted answers fileName)
    with assms(1,2) show ?thesis
      by (auto simp: initialise_sets_flag)
  next
    case (Push input)
    with assms(1) d w show ?thesis
      by (cases "input = []")
        (auto simp: push_rejected push_accepted info_def log_fields log_detached)
  next
    case Pop
    with assms(1) d w show ?thesis
      by (cases "m_stack s = []")
        (auto simp: pop_empty pop_nonempty info_def log_fields log_detached)
  qed (use assms(1) d w in \<open>auto simp: fatal_def error_def warn_def info_def debug_def
        log_fields log_detached write_str_fields write_str_detached split: sum.splits\<close>)
qed

subsection \<open>Invariants of the reachable states\<close>

lemma reachable_threshold: "reachable s \<Longrightarrow> m_threshold s = INFO"
  by (induction rule: reachable.induct) (simp_all add: Log_ctor_def exec_threshold)

lemma reachable_stack_entries: "reachable s \<Longrightarrow> stack_entries_nonempty s"
proof (induction rule: reachable.induct)
  case constructed
  show ?case by (simp add: Log_ctor_def stack_entries_nonempty_def)
next
  case (called s c s')
  then show ?case by (simp add: exec_stack_entries)
qed

lemma reachable_detached:
  "reachable s \<Longrightarrow>
     \<not> m_initialised s \<longrightarrow> opened (m_stream s) = None \<and> written (m_stream s) = []"
proof (induction rule: reachable.induct)
  case constructed
  show ?case by (simp add: Log_ctor_def ofstream_ctor_def)
next
  case (called s c s')
  then show ?case using exec_detached by blast
qed

section \<open>The claims\<close>

subsection \<open>Filtering by the threshold\<close>

text \<open>
  C1. For every level \<open>L\<close>, message \<open>m\<close> and state, \<open>log L m\<close> returns true exactly when
  the ordinal of \<open>L\<close> is at most the ordinal of the threshold, and exactly then the
  console grows; the first new line is the one carrying \<open>m\<close>. When \<open>L\<close> is below the
  threshold the call returns false and the state afterwards is the state before: both
  sinks, the call stack, the threshold and the file name are as they were.
\<close>

theorem log_emits_iff_within_threshold:
  "fst (log L m s) = (Type_val L \<le> Type_val (m_threshold s))
   \<and> (cout (snd (log L m s)) \<noteq> cout s) = (Type_val L \<le> Type_val (m_threshold s))
   \<and> (Type_val L \<le> Type_val (m_threshold s) \<longrightarrow>
        (\<exists>rest. cout (snd (log L m s)) = cout s @ (''[ TIME ] '' @ m) # rest))
   \<and> (\<not> Type_val L \<le> Type_val (m_threshold s) \<longrightarrow> log L m s = (False, s))"
proof (cases "Type_le L (m_threshold s)")
  case False
  then show ?thesis
    by (simp add: log_rejected) (simp add: Type_le_def)
next
  case True
  then have r: "fst (log L m s)"
    by (simp add: log_def Let_def)
  have "\<exists>rest. cout (snd (log L m s)) = cout s @ (''[ TIME ] '' @ m) # rest"
  proof (cases "Type_le L ERROR")
    case True
    with \<open>Type_le L (m_threshold s)\<close> show ?thesis
      by (simp add: log_cout_dump)
  next
    case False
    with \<open>Type_le L (m_threshold s)\<close> show ?thesis
      by (simp add: log_cout_plain)
  qed
  with r True show ?thesis
    by (auto simp: Type_le_def)
qed

theorem log_emits_iff_within_threshold_witness:
  "\<not> Type_val DEBUG \<le> Type_val (m_threshold Log_ctor)
   \<and> log DEBUG ''x'' Log_ctor = (False, Log_ctor)
   \<and> Type_val WARN \<le> Type_val (m_threshold Log_ctor)
   \<and> fst (log WARN ''x'' Log_ctor)
   \<and> cout (snd (log WARN ''x'' Log_ctor)) \<noteq> cout Log_ctor"
  using log_emits_iff_within_threshold [of DEBUG "''x''" Log_ctor]
    log_emits_iff_within_threshold [of WARN "''x''" Log_ctor]
  by (simp add: Log_ctor_fields)

subsection \<open>The format of a line\<close>

text \<open>
  C2. The claim asks for a line that carries the time of the call and the level of the
  message. The source builds the line from the fixed text \<^verbatim>\<open>"[ TIME ] "\<close> and the message
  (line 96): on the constructed logger a warning and an information message with the
  same text give the same line, which names neither a time nor a level.
\<close>

theorem log_line_has_fixed_prefix:
  "cout (snd (log WARN ''x'' Log_ctor)) = [''[ TIME ] x'']
   \<and> cout (snd (log INFO ''x'' Log_ctor)) = [''[ TIME ] x'']
   \<and> log WARN ''x'' Log_ctor = log INFO ''x'' Log_ctor"
  by (simp add: log_def Let_def Log_ctor_def write_str_def Type_le_def)

subsection \<open>The stack dump\<close>

text \<open>
  C3. When \<open>L\<close> is ERROR or more severe and passes the threshold, \<open>log L m\<close> sends to the
  console the line of the message, the opening banner, every entry of the call stack
  from the most recently pushed to the oldest, and the closing banner. A file stream
  that is attached and good receives the same lines when the file takes each of these
  writes; whatever the file does, what it receives is an initial part of these lines,
  in this order. After \<open>push "a"\<close>, \<open>push "b"\<close> on the constructed logger,
  \<open>log ERROR "boom"\<close> lists "b" before "a".
\<close>

theorem log_error_dumps_stack_newest_first:
  "(Type_le L ERROR \<and> Type_le L (m_threshold s) \<longrightarrow>
      cout (snd (log L m s)) =
        cout s @ [''[ TIME ] '' @ m, ''====== Stack Trace ======''] @ rev (m_stack s)
          @ [''=========================''] 
      \<and> (opened (m_stream s) \<noteq> None \<and> \<not> failed (m_stream s)
           \<and> (\<forall>k < length (m_stack s) + 3.
                 accepts (m_stream s) (length (written (m_stream s)) + k)) \<longrightarrow>
           written (m_stream (snd (log L m s))) =
             written (m_stream s) @ [''[ TIME ] '' @ m, ''====== Stack Trace ======'']
               @ rev (m_stack s) @ [''=========================''] )
      \<and> (\<exists>j. written (m_stream (snd (log L m s))) =
             written (m_stream s) @ take j ([''[ TIME ] '' @ m, ''====== Stack Trace ======'']
               @ rev (m_stack s) @ [''=========================''] )))
   \<and> cout (snd (log ERROR ''boom'' (snd (push ''b'' (snd (push ''a'' Log_ctor)))))) =
       [''[ TIME ] BEGIN - a'', ''[ TIME ] BEGIN - b'', ''[ TIME ] boom'',
        ''====== Stack Trace ======'', ''b'', ''a'', ''=========================''] "
proof -
  have thr: "m_threshold (snd (push ''b'' (snd (push ''a'' Log_ctor)))) = INFO"
    by (simp add: push_fields Log_ctor_fields)
  have stk: "m_stack (snd (push ''b'' (snd (push ''a'' Log_ctor)))) = [''a'', ''b'']"
    by (simp add: push_stack Log_ctor_fields)
  have out: "cout (snd (push ''b'' (snd (push ''a'' Log_ctor)))) =
      [''[ TIME ] BEGIN - a'', ''[ TIME ] BEGIN - b'']"
    by (simp add: push_cout push_fields Type_le_def Log_ctor_fields)
  have scenario: "cout (snd (log ERROR ''boom'' (snd (push ''b'' (snd (push ''a'' Log_ctor)))))) =
      [''[ TIME ] BEGIN - a'', ''[ TIME ] BEGIN - b'', ''[ TIME ] boom'',
       ''====== Stack Trace ======'', ''b'', ''a'', ''=========================''] "
    by (simp add: log_cout_dump thr stk out Type_le_def)
  have general: "cout (snd (log L m s)) =
        cout s @ [''[ TIME ] '' @ m, ''====== Stack Trace ======''] @ rev (m_stack s)
          @ [''=========================''] 
      \<and> (opened (m_stream s) \<noteq> None \<and> \<not> failed (m_stream s)
           \<and> (\<forall>k < length (m_stack s) + 3.
                 accepts (m_stream s) (length (written (m_stream s)) + k)) \<longrightarrow>
           written (m_stream (snd (log L m s))) =
             written (m_stream s) @ [''[ TIME ] '' @ m, ''====== Stack Trace ======'']
               @ rev (m_stack s) @ [''=========================''] )
      \<and> (\<exists>j. written (m_stream (snd (log L m s))) =
             written (m_stream s) @ take j ([''[ TIME ] '' @ m, ''====== Stack Trace ======'']
               @ rev (m_stack s) @ [''=========================''] ))"
    if e: "Type_le L ERROR" and t: "Type_le L (m_threshold s)"
  proof (intro conjI impI)
    show "cout (snd (log L m s)) =
        cout s @ [''[ TIME ] '' @ m, ''====== Stack Trace ======''] @ rev (m_stack s)
          @ [''=========================''] "
      using t e by (rule log_cout_dump)
  next
    assume "opened (m_stream s) \<noteq> None \<and> \<not> failed (m_stream s)
        \<and> (\<forall>k < length (m_stack s) + 3.
              accepts (m_stream s) (length (written (m_stream s)) + k))"
    then show "written (m_stream (snd (log L m s))) =
        written (m_stream s) @ [''[ TIME ] '' @ m, ''====== Stack Trace ======'']
          @ rev (m_stack s) @ [''=========================''] "
      using t e log_good_dump by blast
  next
    show "\<exists>j. written (m_stream (snd (log L m s))) =
        written (m_stream s) @ take j ([''[ TIME ] '' @ m, ''====== Stack Trace ======'']
          @ rev (m_stack s) @ [''=========================''] )"
      using t e by (rule log_prefix_dump)
  qed
  from general scenario show ?thesis
    by blast
qed

text \<open>
  The witness runs on a logger whose file is open and takes every write, and, for the
  other case, on one whose file takes two lines and then no more.
\<close>

theorem log_error_dumps_stack_newest_first_witness:
  "Type_le FATAL ERROR
   \<and> Type_le FATAL
       (m_threshold (push_all [''main'', ''run''] (snd (initialise True (\<lambda>k. True) ''a.log'' Log_ctor))))
   \<and> opened (m_stream (push_all [''main'', ''run'']
         (snd (initialise True (\<lambda>k. True) ''a.log'' Log_ctor)))) \<noteq> None
   \<and> \<not> failed (m_stream (push_all [''main'', ''run'']
         (snd (initialise True (\<lambda>k. True) ''a.log'' Log_ctor))))
   \<and> cout (snd (log FATAL ''halt'' (push_all [''main'', ''run'']
         (snd (initialise True (\<lambda>k. True) ''a.log'' Log_ctor))))) =
       [''[ TIME ] Log initialised'', ''[ TIME ] BEGIN - main'', ''[ TIME ] BEGIN - run'',
        ''[ TIME ] halt'', ''====== Stack Trace ======'', ''run'', ''main'',
        ''=========================''] 
   \<and> written (m_stream (snd (log FATAL ''halt'' (push_all [''main'', ''run'']
         (snd (initialise True (\<lambda>k. True) ''a.log'' Log_ctor)))))) =
       [''[ TIME ] Log initialised'', ''[ TIME ] BEGIN - main'', ''[ TIME ] BEGIN - run'',
        ''[ TIME ] halt'', ''====== Stack Trace ======'', ''run'', ''main'',
        ''=========================''] 
   \<and> written (m_stream (snd (log FATAL ''halt'' (push_all [''main'', ''run'']
         (snd (initialise True (\<lambda>k. k < 2) ''a.log'' Log_ctor)))))) =
       [''[ TIME ] Log initialised'', ''[ TIME ] BEGIN - main'']
   \<and> failed (m_stream (snd (log FATAL ''halt'' (push_all [''main'', ''run'']
         (snd (initialise True (\<lambda>k. k < 2) ''a.log'' Log_ctor))))))"
proof -
  define S where "S = push_all [''main'', ''run'']
    (snd (initialise True (\<lambda>k. True) ''a.log'' Log_ctor))"
  have S: "S = \<lparr>m_threshold = INFO, m_fileName = ''a.log'', m_stack = [''main'', ''run''],
      m_stream = \<lparr>opened = Some (''a.log'', [ios_app, ios_out]), failed = False,
        written = [''[ TIME ] Log initialised'', ''[ TIME ] BEGIN - main'',
          ''[ TIME ] BEGIN - run''],
        accepts = (\<lambda>k. True)\<rparr>,
      m_initialised = True,
      cout = [''[ TIME ] Log initialised'', ''[ TIME ] BEGIN - main'',
        ''[ TIME ] BEGIN - run'']\<rparr>"
    by (simp add: S_def initialise_def push_def info_def log_def Let_def write_str_def
        ofstream_open_def ofstream_line_def Log_ctor_def ofstream_ctor_def Type_le_def)
  have full: "written (m_stream (snd (log FATAL ''halt'' (push_all [''main'', ''run'']
         (snd (initialise True (\<lambda>k. k < 2) ''a.log'' Log_ctor)))))) =
       [''[ TIME ] Log initialised'', ''[ TIME ] BEGIN - main'']
   \<and> failed (m_stream (snd (log FATAL ''halt'' (push_all [''main'', ''run'']
         (snd (initialise True (\<lambda>k. k < 2) ''a.log'' Log_ctor))))))"
    by (simp add: initialise_def push_def info_def log_def Let_def write_str_def
        ofstream_open_def ofstream_line_def Log_ctor_def ofstream_ctor_def Type_le_def)
  have pre: "Type_le FATAL ERROR \<and> Type_le FATAL (m_threshold S)"
    by (simp add: S Type_le_def)
  have str: "opened (m_stream S) \<noteq> None \<and> \<not> failed (m_stream S)
      \<and> (\<forall>k < length (m_stack S) + 3. accepts (m_stream S) (length (written (m_stream S)) + k))"
    by (simp add: S)
  from log_error_dumps_stack_newest_first [of FATAL S "''halt''"] pre str
  have "cout (snd (log FATAL ''halt'' S)) =
      cout S @ [''[ TIME ] '' @ ''halt'', ''====== Stack Trace ======''] @ rev (m_stack S)
        @ [''=========================''] 
    \<and> written (m_stream (snd (log FATAL ''halt'' S))) =
      written (m_stream S) @ [''[ TIME ] '' @ ''halt'', ''====== Stack Trace ======'']
        @ rev (m_stack S) @ [''=========================''] "
    by blast
  then have "cout (snd (log FATAL ''halt'' S)) =
       [''[ TIME ] Log initialised'', ''[ TIME ] BEGIN - main'', ''[ TIME ] BEGIN - run'',
        ''[ TIME ] halt'', ''====== Stack Trace ======'', ''run'', ''main'',
        ''=========================''] 
    \<and> written (m_stream (snd (log FATAL ''halt'' S))) =
       [''[ TIME ] Log initialised'', ''[ TIME ] BEGIN - main'', ''[ TIME ] BEGIN - run'',
        ''[ TIME ] halt'', ''====== Stack Trace ======'', ''run'', ''main'',
        ''=========================''] "
    by (simp add: S)
  with pre str full show ?thesis
    unfolding S_def by blast
qed

subsection \<open>Peek\<close>

text \<open>
  C4, as the claim is written, with "the Nth label" the last of the labels pushed: it
  fails when one of the distinct labels is the empty string, which \<open>push\<close> rejects. After
  \<open>push "a"\<close>, \<open>push ""\<close> the top is still "a".
\<close>

theorem peek_after_rejected_push_counterexample:
  "distinct [''a'', []] \<and> peek (push_all [''a'', []] Log_ctor) = Inr ''a''
   \<and> peek (push_all [''a'', []] Log_ctor) \<noteq> Inr (last [''a'', []])"
  by (simp add: push_rejected push_stack peek_def Log_ctor_fields)

text \<open>
  C4, amended. On a non-empty call stack \<open>peek\<close> returns the most recently pushed label
  and, having no effect on the state, leaves the stack as it is. After \<open>N \<ge> 1\<close> pushes of
  non-empty labels (distinct or not) \<open>peek\<close> returns the \<open>N\<close>th label; when \<open>N \<ge> 2\<close>, one
  \<open>pop\<close> returns that label and \<open>peek\<close> then returns the \<open>(N-1)\<close>th. On an empty call
  stack, the constructed logger's among them, \<open>peek\<close> is undefined behaviour.
\<close>

theorem peek_returns_newest_label:
  "(m_stack s \<noteq> [] \<longrightarrow> peek s = Inr (last (m_stack s)) \<and> exec Peek s = Inr s)
   \<and> ([] \<notin> set ls \<and> 1 \<le> length ls \<longrightarrow>
        peek (push_all ls s) = Inr (ls ! (length ls - 1)))
   \<and> ([] \<notin> set ls \<and> 2 \<le> length ls \<longrightarrow>
        (\<exists>s'. pop (push_all ls s) = Inr (ls ! (length ls - 1), s')
              \<and> peek s' = Inr (ls ! (length ls - 2))))
   \<and> (m_stack s = [] \<longrightarrow> peek s = Inl UndefinedBehaviour)
   \<and> peek Log_ctor = Inl UndefinedBehaviour"
proof -
  have one: "peek (push_all ls s) = Inr (ls ! (length ls - 1))"
    if "[] \<notin> set ls" and "1 \<le> length ls"
  proof -
    from that(2) have "ls \<noteq> []" by auto
    with that(1) have "peek (push_all ls s) = Inr (last ls)"
      by (simp add: peek_def push_all_stack)
    with \<open>ls \<noteq> []\<close> show ?thesis
      by (simp add: last_conv_nth)
  qed
  have two: "\<exists>s'. pop (push_all ls s) = Inr (ls ! (length ls - 1), s')
                  \<and> peek s' = Inr (ls ! (length ls - 2))"
    if ne: "[] \<notin> set ls" and len: "2 \<le> length ls"
  proof -
    from len have nonempty: "ls \<noteq> []" and rest: "butlast ls \<noteq> []"
      by (auto simp: length_greater_0_conv [symmetric] simp del: length_greater_0_conv)
    let ?s = "push_all ls s"
    let ?s' = "snd (info (''END - '' @ last (m_stack ?s)) (?s\<lparr>m_stack := butlast (m_stack ?s)\<rparr>))"
    have stk: "m_stack ?s = m_stack s @ ls"
      using ne by (rule push_all_stack)
    have "pop ?s = Inr (last (m_stack ?s), ?s')"
      using nonempty by (simp add: pop_nonempty stk)
    moreover have "last (m_stack ?s) = last ls"
      using nonempty by (simp add: stk)
    moreover have "last ls = ls ! (length ls - 1)"
      using nonempty by (simp add: last_conv_nth)
    moreover have "m_stack ?s' = m_stack s @ butlast ls"
      using nonempty by (simp add: info_def log_fields stk butlast_append)
    then have "peek ?s' = Inr (last (butlast ls))"
      using rest by (simp add: peek_def)
    moreover have "last (butlast ls) = ls ! (length ls - 2)"
    proof -
      have "length (butlast ls) - 1 = length ls - 2"
        by simp
      moreover have "last (butlast ls) = butlast ls ! (length (butlast ls) - 1)"
        using rest by (rule last_conv_nth)
      ultimately have "last (butlast ls) = butlast ls ! (length ls - 2)"
        by (rule subst)
      also have "\<dots> = ls ! (length ls - 2)"
        using len by (intro nth_butlast) simp
      finally show ?thesis .
    qed
    ultimately show ?thesis by simp
  qed
  show ?thesis
    using one two by (simp add: peek_def Log_ctor_fields)
qed

theorem peek_returns_newest_label_witness:
  "[] \<notin> set [''f'', ''g'', ''h''] \<and> 2 \<le> length [''f'', ''g'', ''h'']
   \<and> m_stack (push_all [''f'', ''g'', ''h''] Log_ctor) \<noteq> []
   \<and> peek (push_all [''f'', ''g'', ''h''] Log_ctor) = Inr ''h''
   \<and> (\<exists>s'. pop (push_all [''f'', ''g'', ''h''] Log_ctor) = Inr (''h'', s') \<and> peek s' = Inr ''g'')"
proof -
  have "m_stack (push_all [''f'', ''g'', ''h''] Log_ctor) = [''f'', ''g'', ''h'']"
    by (simp add: push_stack Log_ctor_fields)
  with peek_returns_newest_label [of "push_all [''f'', ''g'', ''h''] Log_ctor" "[]"]
    peek_returns_newest_label [of Log_ctor "[''f'', ''g'', ''h'']"]
  show ?thesis
    by (simp del: push_all.simps)
qed

subsection \<open>Push and pop\<close>

text \<open>
  C5. For every state and every non-empty label \<open>f\<close>, \<open>push f\<close> succeeds, the \<open>pop\<close>
  that follows returns \<open>f\<close>, and the call stack is then what it was before the push.
\<close>

theorem push_pop_round_trip:
  "f \<noteq> [] \<Longrightarrow>
     fst (push f s) \<and> (\<exists>s'. pop (snd (push f s)) = Inr (f, s') \<and> m_stack s' = m_stack s)"
  by (simp add: push_accepted pop_nonempty info_def log_fields)

theorem push_pop_round_trip_witness:
  "''f'' \<noteq> [] \<and> fst (push ''f'' Log_ctor)
   \<and> (\<exists>s'. pop (snd (push ''f'' Log_ctor)) = Inr (''f'', s') \<and> m_stack s' = [])"
  using push_pop_round_trip [of "''f''" Log_ctor]
  by (simp add: Log_ctor_fields)

text \<open>
  C6. \<open>push ""\<close> returns false and the state afterwards is the state before, so the
  call stack is unchanged and neither sink received anything. For a non-empty label
  \<open>push\<close> returns true, the state afterwards is that of \<open>info ("BEGIN - " + label)\<close> with
  the label appended to the call stack, and the BEGIN line is on the console whenever
  the threshold lets INFO through, which it does in every reachable state.
\<close>

theorem push_rejects_only_empty_label:
  "push [] s = (False, s)
   \<and> (f \<noteq> [] \<longrightarrow>
        fst (push f s)
        \<and> snd (push f s) = (snd (info (''BEGIN - '' @ f) s))\<lparr>m_stack := m_stack s @ [f]\<rparr>
        \<and> m_stack (snd (push f s)) = m_stack s @ [f]
        \<and> (Type_le INFO (m_threshold s) \<longrightarrow>
             cout (snd (push f s)) = cout s @ [''[ TIME ] BEGIN - '' @ f])
        \<and> (reachable s \<longrightarrow> cout (snd (push f s)) = cout s @ [''[ TIME ] BEGIN - '' @ f]))"
proof -
  have "cout (snd (push f s)) = cout s @ [''[ TIME ] BEGIN - '' @ f]"
    if "f \<noteq> []" and "reachable s"
    using that by (simp add: push_cout reachable_threshold Type_le_def)
  then show ?thesis
    by (simp add: push_rejected push_accepted push_cout info_cout)
qed

theorem push_rejects_only_empty_label_witness:
  "push [] Log_ctor = (False, Log_ctor) \<and> ''f'' \<noteq> [] \<and> reachable Log_ctor
   \<and> Type_le INFO (m_threshold Log_ctor)
   \<and> fst (push ''f'' Log_ctor) \<and> m_stack (snd (push ''f'' Log_ctor)) = [''f'']
   \<and> cout (snd (push ''f'' Log_ctor)) = [''[ TIME ] BEGIN - f'']"
  using push_rejects_only_empty_label [of Log_ctor "''f''"] reachable.constructed
  by (simp add: Log_ctor_fields Type_le_def info_cout)

subsection \<open>Initialisation happens once\<close>

text \<open>
  C7. On a logger that is not yet initialised, \<open>initialise\<close> returns true, records the
  path and sets the flag; on a reachable such logger a granted open leaves the stream
  attached to that path in append mode. On an initialised logger \<open>initialise\<close>, whatever the path,
  returns false and the state afterwards is the state before; in particular a second
  call right after a first changes nothing. No later call changes the flag, the file
  name or the file the stream is attached to.
\<close>

theorem initialise_only_first_call_takes_effect:
  "(\<not> m_initialised s \<longrightarrow>
      fst (initialise g a p s) \<and> m_fileName (snd (initialise g a p s)) = p
      \<and> m_initialised (snd (initialise g a p s)))
   \<and> (reachable s \<and> \<not> m_initialised s \<longrightarrow>
        opened (m_stream (snd (initialise True a p s))) = Some (p, [ios_app, ios_out]))
   \<and> (m_initialised s \<longrightarrow> initialise g' a' q s = (False, s))
   \<and> initialise g' a' q (snd (initialise g a p s)) = (False, snd (initialise g a p s))
   \<and> (m_initialised s \<and> exec c s = Inr s' \<longrightarrow>
        m_initialised s' \<and> m_fileName s' = m_fileName s
        \<and> opened (m_stream s') = opened (m_stream s))"
proof -
  have fresh: "opened (m_stream (snd (initialise True a p s))) = Some (p, [ios_app, ios_out])"
    if r: "reachable s" and ni: "\<not> m_initialised s"
  proof -
    from r ni have "opened (m_stream s) = None"
      using reachable_detached by blast
    with ni show ?thesis
      by (simp add: initialise_first ofstream_open_def)
  qed
  show ?thesis
    using fresh exec_stays_initialised [of c s s']
    by (simp add: initialise_first initialise_again initialise_sets_flag)
qed

theorem initialise_only_first_call_takes_effect_witness:
  "reachable Log_ctor \<and> \<not> m_initialised Log_ctor
   \<and> fst (initialise True (\<lambda>k. True) ''a.log'' Log_ctor)
   \<and> m_fileName (snd (initialise True (\<lambda>k. True) ''a.log'' Log_ctor)) = ''a.log''
   \<and> opened (m_stream (snd (initialise True (\<lambda>k. True) ''a.log'' Log_ctor)))
       = Some (''a.log'', [ios_app, ios_out])
   \<and> m_initialised (snd (initialise True (\<lambda>k. True) ''a.log'' Log_ctor))
   \<and> initialise True (\<lambda>k. True) ''b.log'' (snd (initialise True (\<lambda>k. True) ''a.log'' Log_ctor))
       = (False, snd (initialise True (\<lambda>k. True) ''a.log'' Log_ctor))
   \<and> exec (Push ''f'') (snd (initialise True (\<lambda>k. True) ''a.log'' Log_ctor))
       = Inr (snd (push ''f'' (snd (initialise True (\<lambda>k. True) ''a.log'' Log_ctor))))
   \<and> m_fileName (snd (push ''f'' (snd (initialise True (\<lambda>k. True) ''a.log'' Log_ctor)))) = ''a.log''"
  using initialise_only_first_call_takes_effect
      [of Log_ctor True "\<lambda>k. True" "''a.log''" True "\<lambda>k. True" "''b.log''" "Push ''f''"
        "snd (push ''f'' Log_ctor)"]
    initialise_only_first_call_takes_effect
      [of "snd (initialise True (\<lambda>k. True) ''a.log'' Log_ctor)" True "\<lambda>k. True" "''a.log''" True
        "\<lambda>k. True" "''b.log''"
        "Push ''f''" "snd (push ''f'' (snd (initialise True (\<lambda>k. True) ''a.log'' Log_ctor)))"]
    reachable.constructed
  by (simp add: Log_ctor_fields)

subsection \<open>Pop\<close>

text \<open>
  C8. On the empty call stack \<open>pop\<close> returns the empty string and the state afterwards
  is the state before. On a non-empty call stack \<open>pop\<close> returns the top label, the stack
  afterwards is the stack without it, the state is that of \<open>info ("END - " + label)\<close>
  run after the removal, and the END line is on the console whenever the threshold
  lets INFO through, which it does in every reachable state. \<open>pop\<close> never runs into the
  undefined behaviour of \<open>peek\<close>.
\<close>

theorem pop_returns_top_or_empty_string:
  "(m_stack s = [] \<longrightarrow> pop s = Inr ([], s))
   \<and> (m_stack s \<noteq> [] \<longrightarrow>
        (\<exists>s'. pop s = Inr (last (m_stack s), s')
           \<and> m_stack s' = butlast (m_stack s)
           \<and> s' = snd (info (''END - '' @ last (m_stack s)) (s\<lparr>m_stack := butlast (m_stack s)\<rparr>))
           \<and> (Type_le INFO (m_threshold s) \<longrightarrow>
                cout s' = cout s @ [''[ TIME ] END - '' @ last (m_stack s)])
           \<and> (reachable s \<longrightarrow> cout s' = cout s @ [''[ TIME ] END - '' @ last (m_stack s)])))"
proof -
  have "Type_le INFO (m_threshold s)" if "reachable s"
    using reachable_threshold [OF that] by (simp add: Type_le_def)
  then show ?thesis
    by (auto simp: pop_empty pop_nonempty info_cout) (simp_all add: info_def log_fields)
qed

theorem pop_returns_top_or_empty_string_witness:
  "m_stack Log_ctor = [] \<and> pop Log_ctor = Inr ([], Log_ctor)
   \<and> m_stack (push_all [''a'', ''b''] Log_ctor) \<noteq> []
   \<and> Type_le INFO (m_threshold (push_all [''a'', ''b''] Log_ctor))
   \<and> (\<exists>s'. pop (push_all [''a'', ''b''] Log_ctor) = Inr (''b'', s') \<and> m_stack s' = [''a'']
         \<and> cout s' = [''[ TIME ] BEGIN - a'', ''[ TIME ] BEGIN - b'', ''[ TIME ] END - b''])"
proof -
  have thr: "m_threshold (push_all [''a'', ''b''] Log_ctor) = INFO"
    by (simp add: push_fields Log_ctor_fields)
  have stk: "m_stack (push_all [''a'', ''b''] Log_ctor) = [''a'', ''b'']"
    by (simp add: push_stack Log_ctor_fields)
  have out: "cout (push_all [''a'', ''b''] Log_ctor) =
      [''[ TIME ] BEGIN - a'', ''[ TIME ] BEGIN - b'']"
    by (simp add: push_cout push_fields Type_le_def Log_ctor_fields)
  have le: "Type_le INFO INFO"
    by (simp add: Type_le_def)
  from pop_returns_top_or_empty_string [of Log_ctor]
    pop_returns_top_or_empty_string [of "push_all [''a'', ''b''] Log_ctor"]
  show ?thesis
    by (simp add: thr stk out le Log_ctor_fields del: push_all.simps)
qed

subsection \<open>Invariants\<close>

text \<open>
  C9. Every entry of the call stack is a non-empty string: this holds of the
  constructed logger and every call preserves it, a call other than \<open>push\<close> and \<open>pop\<close>
  leaving the stack as it is; so it holds in every reachable state, and there \<open>pop\<close>
  returns the empty string exactly when the call stack is empty.
\<close>

theorem stack_entries_stay_nonempty:
  "stack_entries_nonempty Log_ctor
   \<and> (stack_entries_nonempty s \<and> exec c s = Inr s' \<longrightarrow> stack_entries_nonempty s')
   \<and> (exec c s = Inr s' \<and> c \<noteq> Pop \<and> (\<forall>input. c \<noteq> Push input) \<longrightarrow> m_stack s' = m_stack s)
   \<and> (reachable s \<longrightarrow>
        (\<forall>x \<in> set (m_stack s). x \<noteq> [])
        \<and> (\<exists>r s'. pop s = Inr (r, s') \<and> (r = [] \<longleftrightarrow> m_stack s = [])))"
proof -
  have "(\<forall>x \<in> set (m_stack s). x \<noteq> [])
      \<and> (\<exists>r s'. pop s = Inr (r, s') \<and> (r = [] \<longleftrightarrow> m_stack s = []))"
    if "reachable s"
  proof -
    from that have inv: "[] \<notin> set (m_stack s)"
      using reachable_stack_entries by (simp add: stack_entries_nonempty_def)
    show ?thesis
    proof (cases "m_stack s = []")
      case True
      then show ?thesis by (simp add: pop_empty)
    next
      case False
      then have "last (m_stack s) \<in> set (m_stack s)" by simp
      with inv have "last (m_stack s) \<noteq> []" by metis
      with inv False show ?thesis
        by (auto simp: pop_nonempty)
    qed
  qed
  moreover have "stack_entries_nonempty Log_ctor"
    by (simp add: stack_entries_nonempty_def Log_ctor_fields)
  ultimately show ?thesis
    using exec_stack_entries [of c s s'] exec_keeps_stack [of c s s'] by blast
qed

theorem stack_entries_stay_nonempty_witness:
  "reachable (snd (push ''a'' Log_ctor))
   \<and> stack_entries_nonempty (snd (push ''a'' Log_ctor))
   \<and> exec Pop (snd (push ''a'' Log_ctor))
       = Inr (snd (info ''END - a'' ((snd (push ''a'' Log_ctor))\<lparr>m_stack := []\<rparr>)))
   \<and> stack_entries_nonempty (snd (info ''END - a'' ((snd (push ''a'' Log_ctor))\<lparr>m_stack := []\<rparr>)))
   \<and> [] \<notin> set (m_stack (snd (push ''a'' Log_ctor)))
   \<and> (\<exists>s'. pop (snd (push ''a'' Log_ctor)) = Inr (''a'', s'))
   \<and> exec (Info ''x'') (snd (push ''a'' Log_ctor)) = Inr (snd (info ''x'' (snd (push ''a'' Log_ctor))))
   \<and> m_stack (snd (info ''x'' (snd (push ''a'' Log_ctor)))) = m_stack (snd (push ''a'' Log_ctor))"
proof -
  have r: "reachable (snd (push ''a'' Log_ctor))"
    using reachable.called [OF reachable.constructed, of "Push ''a''"] by simp
  have stk: "m_stack (snd (push ''a'' Log_ctor)) = [''a'']"
    by (simp add: push_stack Log_ctor_fields)
  have e: "stack_entries_nonempty (snd (push ''a'' Log_ctor))"
    by (simp add: stack_entries_nonempty_def stk)
  have p: "pop (snd (push ''a'' Log_ctor))
      = Inr (''a'', snd (info ''END - a'' ((snd (push ''a'' Log_ctor))\<lparr>m_stack := []\<rparr>)))"
    by (simp add: pop_nonempty stk)
  from stack_entries_stay_nonempty
    [of "snd (push ''a'' Log_ctor)" Pop
      "snd (info ''END - a'' ((snd (push ''a'' Log_ctor))\<lparr>m_stack := []\<rparr>))"]
    stack_entries_stay_nonempty
    [of "snd (push ''a'' Log_ctor)" "Info ''x''" "snd (info ''x'' (snd (push ''a'' Log_ctor)))"]
    r e
  show ?thesis
    by (auto simp: p)
qed

text \<open>
  C10. The constructor sets the threshold to INFO and no call changes it, so it is INFO,
  and not WARN, in every reachable state; there \<open>debug\<close> returns false and the state
  afterwards is the state before, so nothing is emitted.
\<close>

theorem threshold_stays_info_and_debug_is_filtered:
  "m_threshold Log_ctor = INFO
   \<and> (exec c s = Inr s' \<longrightarrow> m_threshold s' = m_threshold s)
   \<and> (reachable s \<longrightarrow>
        m_threshold s = INFO \<and> m_threshold s \<noteq> WARN \<and> debug m s = (False, s))"
proof -
  have "debug m s = (False, s)" if "m_threshold s = INFO"
    using that by (simp add: debug_def log_rejected Type_le_def)
  then show ?thesis
    using reachable_threshold [of s] exec_threshold [of c s s']
    by (auto simp: Log_ctor_fields)
qed

theorem threshold_stays_info_and_debug_is_filtered_witness:
  "exec (Initialise True (\<lambda>k. True) ''a.log'') Log_ctor = Inr (snd (initialise True (\<lambda>k. True) ''a.log'' Log_ctor))
   \<and> reachable (snd (initialise True (\<lambda>k. True) ''a.log'' Log_ctor))
   \<and> m_threshold (snd (initialise True (\<lambda>k. True) ''a.log'' Log_ctor)) = INFO
   \<and> debug ''x'' (snd (initialise True (\<lambda>k. True) ''a.log'' Log_ctor))
       = (False, snd (initialise True (\<lambda>k. True) ''a.log'' Log_ctor))"
proof -
  have r: "reachable (snd (initialise True (\<lambda>k. True) ''a.log'' Log_ctor))"
    using reachable.called [OF reachable.constructed, of "Initialise True (\<lambda>k. True) ''a.log''"] by simp
  from threshold_stays_info_and_debug_is_filtered
    [of "Initialise True (\<lambda>k. True) ''a.log''" Log_ctor "snd (initialise True (\<lambda>k. True) ''a.log'' Log_ctor)"
      "''x''"]
    threshold_stays_info_and_debug_is_filtered
    [of "Initialise True (\<lambda>k. True) ''a.log''" "snd (initialise True (\<lambda>k. True) ''a.log'' Log_ctor)"
      "snd (initialise True (\<lambda>k. True) ''a.log'' Log_ctor)" "''x''"] r
  show ?thesis
    by simp
qed

end
